theory Spec2Isabelle
  imports
    Main
    "HOL-Library.AList"
    "HOL-Library.Sublist"
    "HOL-Library.Char_ord"
    "HOL-Library.List_Lexorder"
begin

section \<open>Data model of cmd/server/server.go\<close>

text \<open>A byte is a \<open>char\<close> (HOL's characters are the 256 byte values), so Go's
  strings and byte slices are both \<open>char\<close> lists.\<close>

type_synonym byte = char
type_synonym timestamp = int

text \<open>The three structs of the server. \<open>Size\<close> is an int64 in the source; it counts
  the bytes of one in-memory payload, so it is modelled as an unbounded integer.\<close>

record Bucket =
  Name :: string
  Created :: timestamp

record ObjectStorage =
  dataDir :: string
  metadataDir :: string

record ObjectMetadata =
  Key :: string
  Size :: int
  ContentType :: string
  ETag :: string
  LastModified :: timestamp

text \<open>The library functions the engine calls and whose results it only passes on:
  \<open>md5.New\<close>/\<open>hash.Sum\<close>, \<open>json.MarshalIndent\<close> and \<open>json.Unmarshal\<close> at the two struct
  types. They are parameters of the model; \<open>None\<close> is the error return.\<close>

record libs =
  md5_sum :: "byte list \<Rightarrow> byte list"
  marshal_object :: "ObjectMetadata \<Rightarrow> byte list option"
  unmarshal_object :: "byte list \<Rightarrow> ObjectMetadata option"
  marshal_bucket :: "Bucket \<Rightarrow> byte list option"
  unmarshal_bucket :: "byte list \<Rightarrow> Bucket option"

text \<open>An \<open>io.Reader\<close>: the bytes it delivers, and whether it then ends with an error
  instead of EOF.\<close>

record stream =
  delivered :: "byte list"
  broken :: bool

text \<open>Errors. A \<open>cause\<close> is what the operating system or a library reports; an \<open>error\<close>
  is what the engine returns, one constructor for each \<open>fmt.Errorf\<close> of the source
  and \<open>Bare\<close> for a cause that is returned unwrapped.\<close>

datatype cause = ENOENT | ENOTDIR | EISDIR | EEXIST | ENOTEMPTY | EREAD | EJSON

datatype error =
    FailedToCreateBucket cause
  | FailedToCreateObjectDirectory cause
  | FailedToCreateTempFile cause
  | FailedToWriteObjectData cause
  | FailedToFinalizeObject cause
  | FailedToSaveMetadata cause
  | ObjectNotFound
  | FailedToOpenObject cause
  | FailedToLoadMetadata cause
  | FailedToDeleteObject cause
  | FailedToDeleteMetadata cause
  | FailedToReadDataDirectory cause
  | Bare cause

section \<open>Paths (path/filepath)\<close>

text \<open>A cleaned relative path is the list of its components; \<open>[]\<close> is \<open>"."\<close>, the
  working directory of the server.\<close>

type_synonym path = "string list"

fun split_path :: "string \<Rightarrow> string list" where
  "split_path [] = [[]]"
| "split_path (c # cs) =
     (if c = CHR ''/'' then [] # split_path cs
      else (case split_path cs of [] \<Rightarrow> [[c]] | w # ws \<Rightarrow> (c # w) # ws))"

text \<open>\<open>filepath.Clean\<close> on a relative path: empty and \<open>.\<close> components vanish, \<open>..\<close>
  removes the component before it, and stays when there is none to remove.\<close>

fun clean_onto :: "path \<Rightarrow> string list \<Rightarrow> path" where
  "clean_onto st [] = st"
| "clean_onto st (c # cs) =
     (if c = [] \<or> c = ''.'' then clean_onto st cs
      else if c = ''..'' then
        (if st = [] \<or> last st = ''..'' then clean_onto (st @ [''..'']) cs
         else clean_onto (butlast st) cs)
      else clean_onto (st @ [c]) cs)"

definition Join :: "string list \<Rightarrow> path" where
  "Join elems = clean_onto [] (concat (map split_path elems))"

definition Dir_of :: "path \<Rightarrow> path" where
  "Dir_of p = butlast p"

fun join_slash :: "string list \<Rightarrow> string" where
  "join_slash [] = []"
| "join_slash [c] = c"
| "join_slash (c # d # cs) = c @ ''/'' @ join_slash (d # cs)"

definition path_string :: "path \<Rightarrow> string" where
  "path_string p = (if p = [] then ''.'' else join_slash p)"


section \<open>The file system (package os)\<close>

text \<open>The directory tree below the working directory: every entry with its path. The
  working directory itself always exists. Each call either fails and changes nothing
  or succeeds; the failures modelled are those a POSIX file system reports from the
  shape of the tree (\<open>ENOENT\<close>, \<open>ENOTDIR\<close>, \<open>EISDIR\<close>, \<open>EEXIST\<close>, \<open>ENOTEMPTY\<close>).\<close>

datatype node = File "byte list" | Dir

type_synonym fs = "(path \<times> node) list"

definition look :: "fs \<Rightarrow> path \<Rightarrow> node option" where
  "look t p = (if p = [] then Some Dir else map_of t p)"

fun resolve_from :: "fs \<Rightarrow> path \<Rightarrow> string list \<Rightarrow> cause + node" where
  "resolve_from t pre [] = (case look t pre of None \<Rightarrow> Inl ENOENT | Some n \<Rightarrow> Inr n)"
| "resolve_from t pre (c # cs) =
     (case look t pre of
        None \<Rightarrow> Inl ENOENT
      | Some (File _) \<Rightarrow> Inl ENOTDIR
      | Some Dir \<Rightarrow> resolve_from t (pre @ [c]) cs)"

definition Stat :: "fs \<Rightarrow> path \<Rightarrow> cause + node" where
  "Stat t p = resolve_from t [] p"


definition IsNotExist :: "cause \<Rightarrow> bool" where
  "IsNotExist e = (e = ENOENT)"

fun mkdir_from :: "fs \<Rightarrow> path \<Rightarrow> string list \<Rightarrow> cause + fs" where
  "mkdir_from t pre [] = Inr t"
| "mkdir_from t pre (c # cs) =
     (case look t (pre @ [c]) of
        Some (File _) \<Rightarrow> Inl ENOTDIR
      | Some Dir \<Rightarrow> mkdir_from t (pre @ [c]) cs
      | None \<Rightarrow> mkdir_from (AList.update (pre @ [c]) Dir t) (pre @ [c]) cs)"

definition MkdirAll :: "fs \<Rightarrow> path \<Rightarrow> cause + fs" where
  "MkdirAll t p = mkdir_from t [] p"

definition WriteFile :: "fs \<Rightarrow> path \<Rightarrow> byte list \<Rightarrow> cause + fs" where
  "WriteFile t p bs =
     (if p = [] then Inl EISDIR
      else case resolve_from t [] (butlast p) of
        Inl e \<Rightarrow> Inl e
      | Inr (File _) \<Rightarrow> Inl ENOTDIR
      | Inr Dir \<Rightarrow>
          (case look t p of
             Some Dir \<Rightarrow> Inl EISDIR
           | _ \<Rightarrow> Inr (AList.update p (File bs) t)))"

definition ReadFile :: "fs \<Rightarrow> path \<Rightarrow> cause + byte list" where
  "ReadFile t p =
     (case resolve_from t [] p of
        Inl e \<Rightarrow> Inl e
      | Inr Dir \<Rightarrow> Inl EISDIR
      | Inr (File bs) \<Rightarrow> Inr bs)"

definition has_children :: "fs \<Rightarrow> path \<Rightarrow> bool" where
  "has_children t p = list_ex (\<lambda>(q, n). q \<noteq> [] \<and> butlast q = p) t"

text \<open>\<open>os.Remove\<close> unlinks a file and removes an empty directory.\<close>

definition Remove :: "fs \<Rightarrow> path \<Rightarrow> cause + fs" where
  "Remove t p =
     (if p = [] then Inl ENOTEMPTY
      else case resolve_from t [] p of
        Inl e \<Rightarrow> Inl e
      | Inr (File _) \<Rightarrow> Inr (AList.delete p t)
      | Inr Dir \<Rightarrow> (if has_children t p then Inl ENOTEMPTY else Inr (AList.delete p t)))"

text \<open>\<open>os.Rename\<close> of a regular file: it replaces a file at the new path, and fails when
  a directory is there.\<close>

definition Rename :: "fs \<Rightarrow> path \<Rightarrow> path \<Rightarrow> cause + fs" where
  "Rename t old new =
     (case resolve_from t [] old of
        Inl e \<Rightarrow> Inl e
      | Inr Dir \<Rightarrow> Inl EISDIR
      | Inr (File bs) \<Rightarrow>
          (if old = new then Inr t
           else case WriteFile t new bs of
             Inl e \<Rightarrow> Inl e
           | Inr t' \<Rightarrow> Inr (AList.delete old t')))"

text \<open>\<open>os.CreateTemp dir "upload-*.tmp"\<close>: the random text that replaces the star is
  an input of the model; a name already taken is reported as \<open>EEXIST\<close>.\<close>

definition CreateTemp :: "fs \<Rightarrow> path \<Rightarrow> string \<Rightarrow> cause + path \<times> fs" where
  "CreateTemp t dir rnd =
     (let name = dir @ [''upload-'' @ rnd @ ''.tmp''] in
      case resolve_from t [] dir of
        Inl e \<Rightarrow> Inl e
      | Inr (File _) \<Rightarrow> Inl ENOTDIR
      | Inr Dir \<Rightarrow>
          (case look t name of
             Some _ \<Rightarrow> Inl EEXIST
           | None \<Rightarrow> Inr (name, AList.update name (File []) t)))"

text \<open>\<open>os.ReadDir\<close>: the entries of a directory, sorted by name, each with
  \<open>entry.Name()\<close> and \<open>entry.IsDir()\<close>.\<close>

definition ReadDir :: "fs \<Rightarrow> path \<Rightarrow> cause + (string \<times> bool) list" where
  "ReadDir t p =
     (case resolve_from t [] p of
        Inl e \<Rightarrow> Inl e
      | Inr (File _) \<Rightarrow> Inl ENOTDIR
      | Inr Dir \<Rightarrow>
          Inr (sort_key fst
                 (map (\<lambda>(q, n). (last q, n = Dir))
                    (filter (\<lambda>(q, n). q \<noteq> [] \<and> butlast q = p) t))))"


section \<open>The storage engine\<close>

definition hextable :: string where
  "hextable = ''0123456789abcdef''"

text \<open>\<open>hex.EncodeToString\<close>: for each byte \<open>v\<close> the digits \<open>hextable[v>>4]\<close> and
  \<open>hextable[v&0x0f]\<close>.\<close>

definition EncodeToString :: "byte list \<Rightarrow> string" where
  "EncodeToString bs =
     concat (map (\<lambda>v. [hextable ! (of_char v div 16), hextable ! (of_char v mod 16)]) bs)"

definition ignoring_error :: "fs \<Rightarrow> cause + fs \<Rightarrow> fs" where
  "ignoring_error t r = (case r of Inl _ \<Rightarrow> t | Inr t' \<Rightarrow> t')"

definition NewObjectStorage :: "fs \<Rightarrow> string \<Rightarrow> ObjectStorage \<times> fs" where
  "NewObjectStorage t baseDir =
     (let dd = Join [baseDir, ''data''];
          md = Join [baseDir, ''metadata''];
          t1 = ignoring_error t (MkdirAll t dd);
          t2 = ignoring_error t1 (MkdirAll t1 md)
      in (\<lparr>dataDir = path_string dd, metadataDir = path_string md\<rparr>, t2))"


definition saveObjectMetaData ::
  "libs \<Rightarrow> ObjectStorage \<Rightarrow> fs \<Rightarrow> string \<Rightarrow> ObjectMetadata \<Rightarrow> cause option \<times> fs" where
  "saveObjectMetaData L storage t bucketName metadata =
     (let metadataPath = Join [metadataDir storage, bucketName, Key metadata @ ''.json''];
          t1 = ignoring_error t (MkdirAll t (Dir_of metadataPath))
      in case marshal_object L metadata of
           None \<Rightarrow> (Some EJSON, t1)
         | Some data \<Rightarrow>
             (case WriteFile t1 metadataPath data of
                Inl e \<Rightarrow> (Some e, t1)
              | Inr t2 \<Rightarrow> (None, t2)))"


text \<open>\<open>loadBucketMetadata\<close>: when the record cannot be read, the source returns a bucket
  made up on the spot, with a nil error.\<close>

definition loadBucketMetadata ::
  "libs \<Rightarrow> timestamp \<Rightarrow> ObjectStorage \<Rightarrow> fs \<Rightarrow> string \<Rightarrow> cause + Bucket" where
  "loadBucketMetadata L now storage t bucketName =
     (let metadataPath = Join [metadataDir storage, bucketName @ ''.json'']
      in case ReadFile t metadataPath of
           Inl e \<Rightarrow> Inr \<lparr>Name = bucketName, Created = now\<rparr>
         | Inr data \<Rightarrow>
             (case unmarshal_bucket L data of
                None \<Rightarrow> Inl EJSON
              | Some bucket \<Rightarrow> Inr bucket))"


text \<open>\<open>PutObject\<close>. \<open>now\<close> is what \<open>time.Now()\<close> returns and \<open>rnd\<close> the random part of the
  temporary file's name. \<open>io.Copy\<close> writes what the reader delivers to the temporary
  file and to the hash, and returns the count of bytes written.\<close>

definition PutObject ::
  "libs \<Rightarrow> timestamp \<Rightarrow> string \<Rightarrow> ObjectStorage \<Rightarrow> fs \<Rightarrow> string \<Rightarrow> string \<Rightarrow> stream \<Rightarrow> string
     \<Rightarrow> (error + ObjectMetadata) \<times> fs" where
  "PutObject L now rnd storage t bucketName objectKey data contentType =
     (let objectPath = Join [dataDir storage, bucketName, objectKey];
          objectDir = Dir_of objectPath
      in case MkdirAll t objectDir of
           Inl e \<Rightarrow> (Inl (FailedToCreateObjectDirectory e), t)
         | Inr t1 \<Rightarrow>
             (case CreateTemp t1 objectDir rnd of
                Inl e \<Rightarrow> (Inl (FailedToCreateTempFile e), t1)
              | Inr (tempFile, t2) \<Rightarrow>
                  (let t3 = AList.update tempFile (File (delivered data)) t2;
                       size = int (length (delivered data))
                   in if broken data then
                        (Inl (FailedToWriteObjectData EREAD),
                         ignoring_error t3 (Remove t3 tempFile))
                      else case Rename t3 tempFile objectPath of
                        Inl e \<Rightarrow>
                          (Inl (FailedToFinalizeObject e),
                           ignoring_error t3 (Remove t3 tempFile))
                      | Inr t4 \<Rightarrow>
                          (let metadata =
                                 \<lparr>Key = objectKey, Size = size, ContentType = contentType,
                                  ETag = EncodeToString (md5_sum L (delivered data)),
                                  LastModified = now\<rparr>
                           in case saveObjectMetaData L storage t4 bucketName metadata of
                                (Some e, t5) \<Rightarrow> (Inl (FailedToSaveMetadata e), t5)
                              | (None, t5) \<Rightarrow> (Inr metadata, t5)))))"


text \<open>\<open>DeleteObject\<close>. The second path is built from \<open>storage.dataDir\<close>, as the source
  has it.\<close>

definition DeleteObject ::
  "ObjectStorage \<Rightarrow> fs \<Rightarrow> string \<Rightarrow> string \<Rightarrow> error option \<times> fs" where
  "DeleteObject storage t bucketName objectKey =
     (let objectPath = Join [dataDir storage, bucketName, objectKey]
      in case (case Remove t objectPath of
                 Inl e \<Rightarrow> (if IsNotExist e then Inr t else Inl e)
               | Inr t1 \<Rightarrow> Inr t1) of
           Inl e \<Rightarrow> (Some (FailedToDeleteObject e), t)
         | Inr t1 \<Rightarrow>
             (let metadataPath = Join [dataDir storage, bucketName, objectKey @ ''.json'']
              in case Remove t1 metadataPath of
                   Inl e \<Rightarrow>
                     (if IsNotExist e then (None, t1)
                      else (Some (FailedToDeleteMetadata e), t1))
                 | Inr t2 \<Rightarrow> (None, t2)))"

fun buckets_of_entries ::
  "libs \<Rightarrow> timestamp \<Rightarrow> ObjectStorage \<Rightarrow> fs \<Rightarrow> (string \<times> bool) list \<Rightarrow> Bucket list" where
  "buckets_of_entries L now storage t [] = []"
| "buckets_of_entries L now storage t ((name, isDir) # entries) =
     (if isDir then
        (case loadBucketMetadata L now storage t name of
           Inl e \<Rightarrow> buckets_of_entries L now storage t entries
         | Inr bucket \<Rightarrow> bucket # buckets_of_entries L now storage t entries)
      else buckets_of_entries L now storage t entries)"

definition ListBuckets ::
  "libs \<Rightarrow> timestamp \<Rightarrow> ObjectStorage \<Rightarrow> fs \<Rightarrow> error + Bucket list" where
  "ListBuckets L now storage t =
     (case ReadDir t (Join [dataDir storage]) of
        Inl e \<Rightarrow> Inl (FailedToReadDataDirectory e)
      | Inr entries \<Rightarrow> Inr (buckets_of_entries L now storage t entries))"



section \<open>The server's store and concrete library parameters\<close>

text \<open>\<open>main\<close> builds the one store of the server with
  \<open>NewObjectStorage "./storage"\<close>; \<open>empty_store\<close> is the file system it leaves when it
  starts in an empty working directory.\<close>

definition main_storage :: ObjectStorage where
  "main_storage = fst (NewObjectStorage [] ''./storage'')"

definition empty_store :: fs where
  "empty_store = snd (NewObjectStorage [] ''./storage'')"

text \<open>A small lossless codec and a digest, to run the engine on concrete inputs: a string
  is written character by character, each behind a colon, and closed by a full stop; an
  integer is written in unary.\<close>

fun enc_str :: "string \<Rightarrow> string" where
  "enc_str [] = ''.''"
| "enc_str (c # cs) = CHR '':'' # c # enc_str cs"

fun dec_str :: "string \<Rightarrow> (string \<times> string) option" where
  "dec_str [] = None"
| "dec_str (t # r) =
     (if t = CHR ''.'' then Some ([], r)
      else if t = CHR '':'' then
        (case r of
           [] \<Rightarrow> None
         | c # r' \<Rightarrow> (case dec_str r' of None \<Rightarrow> None | Some (s, r'') \<Rightarrow> Some (c # s, r'')))
      else None)"

definition enc_int :: "int \<Rightarrow> string" where
  "enc_int i = enc_str (replicate (nat \<bar>i\<bar>) (if i < 0 then CHR ''-'' else CHR ''+''))"

definition dec_int :: "string \<Rightarrow> (int \<times> string) option" where
  "dec_int s =
     (case dec_str s of
        None \<Rightarrow> None
      | Some (u, r) \<Rightarrow>
          Some (if u \<noteq> [] \<and> hd u = CHR ''-'' then - int (length u) else int (length u), r))"

definition demo_marshal_object :: "ObjectMetadata \<Rightarrow> byte list option" where
  "demo_marshal_object m =
     Some (enc_str (Key m) @ enc_int (Size m) @ enc_str (ContentType m) @ enc_str (ETag m)
           @ enc_int (LastModified m))"

definition demo_unmarshal_object :: "byte list \<Rightarrow> ObjectMetadata option" where
  "demo_unmarshal_object s =
     (case dec_str s of None \<Rightarrow> None | Some (k, r1) \<Rightarrow>
      (case dec_int r1 of None \<Rightarrow> None | Some (n, r2) \<Rightarrow>
      (case dec_str r2 of None \<Rightarrow> None | Some (c, r3) \<Rightarrow>
      (case dec_str r3 of None \<Rightarrow> None | Some (e, r4) \<Rightarrow>
      (case dec_int r4 of None \<Rightarrow> None | Some (l, r5) \<Rightarrow>
         (if r5 = [] then
            Some \<lparr>Key = k, Size = n, ContentType = c, ETag = e, LastModified = l\<rparr>
          else None))))))"

definition demo_marshal_bucket :: "Bucket \<Rightarrow> byte list option" where
  "demo_marshal_bucket b = Some (enc_str (Name b) @ enc_int (Created b))"

definition demo_unmarshal_bucket :: "byte list \<Rightarrow> Bucket option" where
  "demo_unmarshal_bucket s =
     (case dec_str s of None \<Rightarrow> None | Some (n, r1) \<Rightarrow>
      (case dec_int r1 of None \<Rightarrow> None | Some (c, r2) \<Rightarrow>
         (if r2 = [] then Some \<lparr>Name = n, Created = c\<rparr> else None)))"

definition demo_libs :: libs where
  "demo_libs =
     \<lparr>md5_sum = rev,
      marshal_object = demo_marshal_object,
      unmarshal_object = demo_unmarshal_object,
      marshal_bucket = demo_marshal_bucket,
      unmarshal_bucket = demo_unmarshal_bucket\<rparr>"

section \<open>Predicates used in the statements\<close>

text \<open>Two paths have the same shape when they are equally long and have their \<open>..\<close>
  components at the same places.\<close>

definition same_shape :: "path \<Rightarrow> path \<Rightarrow> bool" where
  "same_shape a b = (map (\<lambda>c. c = ''..'') a = map (\<lambda>c. c = ''..'') b)"













section \<open>Concrete stores\<close>

text \<open>The payload \<open>hello\<close> as a stream that reads without error, the metadata that
  \<open>PutObject\<close> returns for it, and the store after it was put under \<open>photos/a.txt\<close> into
  the empty store.\<close>

definition hello :: stream where
  "hello = \<lparr>delivered = ''hello'', broken = False\<rparr>"

definition hello_metadata :: ObjectMetadata where
  "hello_metadata =
     \<lparr>Key = ''a.txt'', Size = 5, ContentType = ''text/plain'', ETag = ''6f6c6c6568'',
      LastModified = 7\<rparr>"

definition hello_record :: "byte list" where
  "hello_record =
     '':a:.:t:x:t.:+:+:+:+:+.:t:e:x:t:/:p:l:a:i:n.:6:f:6:c:6:c:6:5:6:8.:+:+:+:+:+:+:+.''"

definition store_with_object :: fs where
  "store_with_object =
     [([''storage''], Dir),
      ([''storage'', ''data''], Dir),
      ([''storage'', ''metadata''], Dir),
      ([''storage'', ''data'', ''photos''], Dir),
      ([''storage'', ''data'', ''photos'', ''a.txt''], File ''hello''),
      ([''storage'', ''metadata'', ''photos''], Dir),
      ([''storage'', ''metadata'', ''photos'', ''a.txt.json''], File hello_record)]"

text \<open>The store after \<open>DeleteObject\<close> of \<open>photos/a.txt\<close> from \<open>store_with_object\<close>.\<close>

definition store_after_delete :: fs where
  "store_after_delete =
     [([''storage''], Dir),
      ([''storage'', ''data''], Dir),
      ([''storage'', ''metadata''], Dir),
      ([''storage'', ''data'', ''photos''], Dir),
      ([''storage'', ''metadata'', ''photos''], Dir),
      ([''storage'', ''metadata'', ''photos'', ''a.txt.json''], File hello_record)]"

text \<open>The store after the one byte \<open>x\<close> was put under \<open>photos/a.json/c\<close> into the empty
  store, and the store that a later, failing \<open>PutObject\<close> of \<open>hello\<close> under \<open>photos/a\<close>
  leaves.\<close>

definition nested_record :: "byte list" where
  "nested_record = '':a:.:j:s:o:n:/:c.:+.:t:e:x:t:/:p:l:a:i:n.:7:8.:+:+:+:+:+:+:+.''"

definition store_with_nested :: fs where
  "store_with_nested =
     [([''storage''], Dir),
      ([''storage'', ''data''], Dir),
      ([''storage'', ''metadata''], Dir),
      ([''storage'', ''data'', ''photos''], Dir),
      ([''storage'', ''data'', ''photos'', ''a.json''], Dir),
      ([''storage'', ''data'', ''photos'', ''a.json'', ''c''], File ''x''),
      ([''storage'', ''metadata'', ''photos''], Dir),
      ([''storage'', ''metadata'', ''photos'', ''a.json''], Dir),
      ([''storage'', ''metadata'', ''photos'', ''a.json'', ''c.json''], File nested_record)]"



text \<open>A store with three bucket directories: \<open>alpha\<close> has a metadata record, \<open>beta\<close> has
  none, and the record of \<open>gamma\<close> does not parse.\<close>

definition store_with_buckets :: fs where
  "store_with_buckets =
     [([''storage''], Dir),
      ([''storage'', ''data''], Dir),
      ([''storage'', ''metadata''], Dir),
      ([''storage'', ''data'', ''gamma''], Dir),
      ([''storage'', ''data'', ''alpha''], Dir),
      ([''storage'', ''data'', ''beta''], Dir),
      ([''storage'', ''metadata'', ''alpha.json''], File '':a:l:p:h:a.:+:+:+.''),
      ([''storage'', ''metadata'', ''gamma.json''], File ''garbage'')]"






section \<open>Facts about the file system model\<close>

lemma strict_prefix_Cons_iff:
  "strict_prefix ys (c # cs) \<longleftrightarrow> ys = [] \<or> (\<exists>zs. ys = c # zs \<and> strict_prefix zs cs)"
  by (cases ys) auto

lemma look_Nil [simp]: "look t [] = Some Dir"
  by (simp add: look_def)

lemma look_update: "p \<noteq> [] \<Longrightarrow> look (AList.update p n t) q = (if q = p then Some n else look t q)"
  by (simp add: look_def update_conv')

lemma look_delete: "look (AList.delete p t) q = (if q = p \<and> q \<noteq> [] then None else look t q)"
  by (simp add: look_def delete_conv')

lemma resolve_from_Inr_iff:
  "resolve_from t pre cs = Inr n \<longleftrightarrow>
     look t (pre @ cs) = Some n \<and> (\<forall>ys. strict_prefix ys cs \<longrightarrow> look t (pre @ ys) = Some Dir)"
proof (induction cs arbitrary: pre)
  case Nil
  then show ?case by (simp split: option.splits)
next
  case (Cons c cs)
  show ?case
  proof (cases "look t pre")
    case None
    then show ?thesis by (auto simp: strict_prefix_Cons_iff)
  next
    case (Some m)
    then show ?thesis
      using Cons.IH[of "pre @ [c]"]
      by (cases m) (auto simp: strict_prefix_Cons_iff)
  qed
qed

lemma resolve_Inr_iff:
  "resolve_from t [] p = Inr n \<longleftrightarrow>
     look t p = Some n \<and> (\<forall>q. strict_prefix q p \<longrightarrow> look t q = Some Dir)"
  using resolve_from_Inr_iff[of t "[]" p n] by simp







lemma mkdir_from_look:
  "mkdir_from t pre cs = Inr t' \<Longrightarrow>
   look t' q =
     (if look t q = None \<and> (\<exists>ys. ys \<noteq> [] \<and> prefix ys cs \<and> q = pre @ ys) then Some Dir
      else look t q)"
proof (induction cs arbitrary: t pre)
  case Nil
  then show ?case by simp
next
  case (Cons c cs)
  let ?p = "pre @ [c]"
  show ?case
  proof (cases "look t ?p")
    case None
    with Cons.prems have m: "mkdir_from (AList.update ?p Dir t) ?p cs = Inr t'" by simp
    show ?thesis
      using Cons.IH[OF m] None
      by (auto simp: look_update prefix_Cons)
  next
    case (Some m)
    with Cons.prems have d: "m = Dir" and mk: "mkdir_from t ?p cs = Inr t'"
      by (cases m; simp)+
    show ?thesis
      using Cons.IH[OF mk] Some d
      by (auto simp: prefix_Cons)
  qed
qed

lemma mkdir_from_dirs:
  "mkdir_from t pre cs = Inr t' \<Longrightarrow> ys \<noteq> [] \<Longrightarrow> prefix ys cs \<Longrightarrow> look t' (pre @ ys) = Some Dir"
proof (induction cs arbitrary: t pre ys)
  case Nil
  then show ?case by simp
next
  case (Cons c cs)
  let ?p = "pre @ [c]"
  from Cons.prems(2,3) obtain zs where ys: "ys = c # zs" and zs: "prefix zs cs"
    by (auto simp: prefix_Cons)
  obtain t1 where mk: "mkdir_from t1 ?p cs = Inr t'" and l1: "look t1 ?p = Some Dir"
    using Cons.prems(1)
    by (cases "look t ?p") (auto simp: look_update split: node.splits)
  show ?case
  proof (cases "zs = []")
    case True
    then show ?thesis using mkdir_from_look[OF mk, of ?p] l1 ys by simp
  next
    case False
    then show ?thesis using Cons.IH[OF mk False zs] ys by simp
  qed
qed

lemma MkdirAll_look:
  "MkdirAll t p = Inr t' \<Longrightarrow>
   look t' q = (if look t q = None \<and> prefix q p then Some Dir else look t q)"
  unfolding MkdirAll_def
  by (drule mkdir_from_look[where q = q]) (auto simp: look_def)

lemma MkdirAll_resolve: "MkdirAll t p = Inr t' \<Longrightarrow> resolve_from t' [] p = Inr Dir"
proof -
  assume "MkdirAll t p = Inr t'"
  then have d: "ys \<noteq> [] \<Longrightarrow> prefix ys p \<Longrightarrow> look t' ys = Some Dir" for ys
    using mkdir_from_dirs[of t "[]" p t' ys] by (simp add: MkdirAll_def)
  have "look t' q = Some Dir" if "prefix q p" for q
    using d[of q] that by (cases "q = []") auto
  then show ?thesis
    by (auto simp: resolve_Inr_iff strict_prefix_def)
qed

section \<open>Facts about paths\<close>

lemma clean_onto_append: "clean_onto st (xs @ ys) = clean_onto (clean_onto st xs) ys"
  by (induction xs arbitrary: st) auto

lemma split_path_not_Nil [simp]: "split_path s \<noteq> []"
  by (induction s) (auto split: list.splits)

lemma split_path_append:
  "CHR ''/'' \<notin> set s \<Longrightarrow>
   split_path (k @ s) = butlast (split_path k) @ [last (split_path k) @ s]"
proof (induction k)
  case Nil
  have "split_path s = [s]" using Nil by (induction s) (auto split: list.splits)
  then show ?case by simp
next
  case (Cons c k)
  then show ?case by (auto split: list.splits)
qed


lemma same_shape_length: "same_shape a b \<Longrightarrow> length a = length b"
  unfolding same_shape_def by (rule map_eq_imp_length_eq)

lemma same_shape_clean_onto:
  "same_shape a b \<Longrightarrow> same_shape (clean_onto a xs) (clean_onto b xs)"
proof (induction xs arbitrary: a b)
  case Nil
  then show ?case by simp
next
  case (Cons c xs)
  let ?f = "\<lambda>c. c = ''..''"
  have m: "map ?f a = map ?f b" using Cons.prems by (simp add: same_shape_def)
  have len: "length a = length b" using Cons.prems by (rule same_shape_length)
  then have e: "a = [] \<longleftrightarrow> b = []" by auto
  have l: "last a = ''..'' \<longleftrightarrow> last b = ''..''" if "a \<noteq> []"
  proof -
    from that e have b: "b \<noteq> []" by simp
    have "?f (last a) = last (map ?f a)" using that by (simp add: last_map)
    also have "\<dots> = last (map ?f b)" by (simp only: m)
    also have "\<dots> = ?f (last b)" using b by (simp add: last_map)
    finally show ?thesis .
  qed
  have s1: "same_shape (a @ [x]) (b @ [x])" for x
    using m by (simp add: same_shape_def)
  have "map ?f (butlast a) = map ?f (butlast b)"
    by (simp only: map_butlast m)
  then have s2: "same_shape (butlast a) (butlast b)"
    by (simp add: same_shape_def)
  show ?case
  proof (cases "c = [] \<or> c = ''.''")
    case True
    then show ?thesis using Cons.IH[OF Cons.prems] by auto
  next
    case False
    show ?thesis
    proof (cases "c = ''..''")
      case True
      show ?thesis
      proof (cases "a = [] \<or> last a = ''..''")
        case True
        with e l have "b = [] \<or> last b = ''..''" by auto
        with True \<open>c = ''..''\<close> show ?thesis using Cons.IH[OF s1[of "''..''"]] by simp
      next
        case False
        with e l have "\<not> (b = [] \<or> last b = ''..'')" by auto
        with False \<open>c = ''..''\<close> show ?thesis using Cons.IH[OF s2] by simp
      qed
    next
      case False
      with \<open>\<not> (c = [] \<or> c = ''.'')\<close> show ?thesis using Cons.IH[OF s1[of c]] by simp
    qed
  qed
qed

lemma clean_onto_snoc:
  "xs \<noteq> [] \<Longrightarrow> clean_onto a xs = clean_onto (clean_onto a (butlast xs)) [last xs]"
  using clean_onto_append[of a "butlast xs" "[last xs]"] by simp

lemma Join_object_neq_metadata_gen:
  assumes "same_shape (Join [d]) (Join [m])"
  shows "Join [d, b, k] \<noteq> Join [m, b, k @ ''.json'']"
proof -
  let ?X = "split_path b @ butlast (split_path k)"
  let ?l = "last (split_path k)"
  let ?Sd = "clean_onto (Join [d]) ?X"
  let ?Sm = "clean_onto (Join [m]) ?X"
  have kj: "split_path (k @ ''.json'') = butlast (split_path k) @ [?l @ ''.json'']"
    by (rule split_path_append) simp
  have "Join [d, b, k] = clean_onto (clean_onto (Join [d]) (split_path b)) (split_path k)"
    by (simp add: Join_def clean_onto_append)
  also have "\<dots> = clean_onto ?Sd [?l]"
    by (subst clean_onto_snoc[of "split_path k"]) (simp_all add: clean_onto_append del: clean_onto.simps)
  finally have jd: "Join [d, b, k] = clean_onto ?Sd [?l]" .
  have "Join [m, b, k @ ''.json''] = clean_onto ?Sm [?l @ ''.json'']"
    by (simp add: Join_def kj clean_onto_append del: clean_onto.simps)
  also have "\<dots> = ?Sm @ [?l @ ''.json'']"
    by simp
  finally have jm: "Join [m, b, k @ ''.json''] = ?Sm @ [?l @ ''.json'']" .
  have len: "length ?Sd = length ?Sm"
    using same_shape_clean_onto[OF assms, of ?X] by (rule same_shape_length)
  show ?thesis
  proof
    assume "Join [d, b, k] = Join [m, b, k @ ''.json'']"
    then have e: "clean_onto ?Sd [?l] = ?Sm @ [?l @ ''.json'']"
      by (simp only: jd jm)
    consider (skip) "?l = [] \<or> ?l = ''.''"
      | (up) "?l = ''..''" "?Sd = [] \<or> last ?Sd = ''..''"
      | (pop) "?l = ''..''" "\<not> (?Sd = [] \<or> last ?Sd = ''..'')"
      | (push) "\<not> (?l = [] \<or> ?l = ''.'')" "?l \<noteq> ''..''"
      by blast
    then show False
    proof cases
      case skip
      then have "clean_onto ?Sd [?l] = ?Sd" by auto
      with e have "length ?Sd = Suc (length ?Sm)" by (metis length_append_singleton)
      with len show False by simp
    next
      case up
      then have "clean_onto ?Sd [?l] = ?Sd @ [''..'']" by simp
      with e have "''..'' = ?l @ ''.json''" by (metis last_snoc)
      then show False using up(1) by simp
    next
      case pop
      then have "clean_onto ?Sd [?l] = butlast ?Sd" by simp
      with e have "length (butlast ?Sd) = Suc (length ?Sm)" by (metis length_append_singleton)
      with len show False by simp
    next
      case push
      then have "clean_onto ?Sd [?l] = ?Sd @ [?l]" by simp
      with e have "?l = ?l @ ''.json''" by (metis last_snoc)
      then show False by simp
    qed
  qed
qed

section \<open>Facts about the calls of package os\<close>

lemma strict_prefix_butlast: "strict_prefix q p \<longleftrightarrow> p \<noteq> [] \<and> prefix q (butlast p)"
proof (cases "p = []")
  case True
  then show ?thesis by simp
next
  case False
  then obtain xs x where p: "p = xs @ [x]" by (metis append_butlast_last_id)
  show ?thesis unfolding p by (auto simp: strict_prefix_def)
qed

lemma WriteFile_Inr:
  assumes "WriteFile t p bs = Inr t'"
  shows "p \<noteq> []" "resolve_from t [] (butlast p) = Inr Dir" "look t p \<noteq> Some Dir"
    "t' = AList.update p (File bs) t"
  using assms
  by (auto simp: WriteFile_def split: if_splits sum.splits node.splits option.splits)

lemma WriteFile_look:
  "WriteFile t p bs = Inr t' \<Longrightarrow> look t' q = (if q = p then Some (File bs) else look t q)"
  by (frule WriteFile_Inr(1), drule WriteFile_Inr(4)) (simp add: look_update)

lemma WriteFile_resolve:
  assumes "WriteFile t p bs = Inr t'"
  shows "resolve_from t' [] p = Inr (File bs)"
proof -
  note w = WriteFile_Inr[OF assms]
  have "look t' q = Some Dir" if "strict_prefix q p" for q
  proof -
    from that have "prefix q (butlast p)" by (simp add: strict_prefix_butlast)
    moreover from that have "q \<noteq> p" by (simp add: strict_prefix_def)
    ultimately have "prefix q (butlast p)" "q \<noteq> p" by blast+
    with w(2) have "look t q = Some Dir"
      by (auto simp: resolve_Inr_iff strict_prefix_def)
    with \<open>q \<noteq> p\<close> show ?thesis by (simp add: WriteFile_look[OF assms])
  qed
  then show ?thesis
    by (simp add: resolve_Inr_iff WriteFile_look[OF assms])
qed





lemma Rename_Inr:
  assumes "Rename t old new = Inr t'"
  shows "\<exists>bs. resolve_from t [] old = Inr (File bs) \<and> old \<noteq> [] \<and>
           (if old = new then t' = t
            else \<exists>t1. WriteFile t new bs = Inr t1 \<and> t' = AList.delete old t1)"
  using assms
  by (auto simp: Rename_def split: if_splits sum.splits node.splits)

lemma Rename_look:
  assumes "Rename t old new = Inr t'"
  shows "\<exists>bs. look t old = Some (File bs) \<and>
           (\<forall>q. look t' q = (if q = new then Some (File bs) else if q = old then None
                              else look t q))"
proof -
  from Rename_Inr[OF assms] obtain bs where r: "resolve_from t [] old = Inr (File bs)"
    and o: "old \<noteq> []"
    and c: "if old = new then t' = t
            else \<exists>t1. WriteFile t new bs = Inr t1 \<and> t' = AList.delete old t1"
    by blast
  from r have l: "look t old = Some (File bs)" by (simp add: resolve_Inr_iff)
  show ?thesis
  proof (cases "old = new")
    case True
    with c l show ?thesis by auto
  next
    case False
    with c obtain t1 where w: "WriteFile t new bs = Inr t1" and t': "t' = AList.delete old t1"
      by auto
    show ?thesis
      using l False o by (auto simp: t' look_delete WriteFile_look[OF w])
  qed
qed

lemma CreateTemp_Inr:
  assumes "CreateTemp t dir rnd = Inr (tmp, t')"
  shows "tmp = dir @ [''upload-'' @ rnd @ ''.tmp'']" "resolve_from t [] dir = Inr Dir"
    "look t tmp = None" "t' = AList.update tmp (File []) t"
  using assms
  by (auto simp: CreateTemp_def Let_def split: sum.splits node.splits option.splits)

lemma mkdir_from_Inl:
  "mkdir_from t pre cs = Inl e \<Longrightarrow>
   \<exists>ys bs. ys \<noteq> [] \<and> prefix ys cs \<and> look t (pre @ ys) = Some (File bs)"
proof (induction cs arbitrary: t pre)
  case Nil
  then show ?case by simp
next
  case (Cons c cs)
  let ?p = "pre @ [c]"
  show ?case
  proof (cases "look t ?p")
    case None
    with Cons.prems have "mkdir_from (AList.update ?p Dir t) ?p cs = Inl e" by simp
    from Cons.IH[OF this] obtain ys bs where ys: "ys \<noteq> []" "prefix ys cs"
      "look (AList.update ?p Dir t) (?p @ ys) = Some (File bs)" by blast
    from ys(3) have "look t (pre @ c # ys) = Some (File bs)"
      by (simp add: look_update split: if_splits)
    then show ?thesis using ys(2) by (intro exI[of _ "c # ys"] exI[of _ bs]) simp
  next
    case (Some m)
    show ?thesis
    proof (cases m)
      case (File bs)
      with Some show ?thesis by (intro exI[of _ "[c]"] exI[of _ bs]) simp
    next
      case Dir
      with Some Cons.prems have "mkdir_from t ?p cs = Inl e" by simp
      from Cons.IH[OF this] obtain ys bs where ys: "ys \<noteq> []" "prefix ys cs"
        "look t (?p @ ys) = Some (File bs)" by blast
      then show ?thesis by (intro exI[of _ "c # ys"] exI[of _ bs]) simp
    qed
  qed
qed

lemma MkdirAll_Inl:
  "MkdirAll t p = Inl e \<Longrightarrow> \<exists>ys bs. ys \<noteq> [] \<and> prefix ys p \<and> look t ys = Some (File bs)"
  using mkdir_from_Inl[of t "[]" p e] by (simp add: MkdirAll_def)


lemma MkdirAll_fails:
  assumes "MkdirAll t p = Inl e"
  shows "resolve_from t [] p \<noteq> Inr Dir"
proof -
  from MkdirAll_Inl[OF assms] obtain ys bs where ys: "ys \<noteq> []" "prefix ys p"
    "look t ys = Some (File bs)" by blast
  show ?thesis
  proof
    assume "resolve_from t [] p = Inr Dir"
    then have "look t p = Some Dir" "\<forall>q. strict_prefix q p \<longrightarrow> look t q = Some Dir"
      by (simp_all add: resolve_Inr_iff)
    with ys show False by (cases "ys = p") (auto simp: strict_prefix_def)
  qed
qed

section \<open>Facts about the engine\<close>

lemma PutObject_Inr:
  assumes "PutObject L now rnd st t b k data ct = (Inr m, t')"
  shows "\<exists>t1 tmp t2 t4 js.
     MkdirAll t (Dir_of (Join [dataDir st, b, k])) = Inr t1 \<and>
     CreateTemp t1 (Dir_of (Join [dataDir st, b, k])) rnd = Inr (tmp, t2) \<and>
     \<not> broken data \<and>
     Rename (AList.update tmp (File (delivered data)) t2) tmp (Join [dataDir st, b, k]) = Inr t4 \<and>
     m = \<lparr>Key = k, Size = int (length (delivered data)), ContentType = ct,
          ETag = EncodeToString (md5_sum L (delivered data)), LastModified = now\<rparr> \<and>
     marshal_object L m = Some js \<and>
     WriteFile (ignoring_error t4 (MkdirAll t4 (Dir_of (Join [metadataDir st, b, k @ ''.json'']))))
       (Join [metadataDir st, b, k @ ''.json'']) js = Inr t'"
  using assms
  unfolding PutObject_def saveObjectMetaData_def Let_def
  by (auto split: sum.splits prod.splits option.splits if_splits)

lemma PutObject_steps:
  assumes "PutObject L now rnd st t b k data ct = (Inr m, t')"
  shows "\<exists>js t5. marshal_object L m = Some js \<and>
     WriteFile t5 (Join [metadataDir st, b, k @ ''.json'']) js = Inr t' \<and>
     (\<forall>q. look t5 q =
       (if q = Join [dataDir st, b, k] then Some (File (delivered data))
        else if look t q = None \<and>
                (prefix q (Dir_of (Join [dataDir st, b, k])) \<or>
                 prefix q (Dir_of (Join [metadataDir st, b, k @ ''.json''])))
        then Some Dir
        else look t q))"
proof -
  let ?obj = "Join [dataDir st, b, k]"
  let ?meta = "Join [metadataDir st, b, k @ ''.json'']"
  from PutObject_Inr[OF assms] obtain t1 tmp t2 t4 js where
    mk: "MkdirAll t (Dir_of ?obj) = Inr t1" and
    ct: "CreateTemp t1 (Dir_of ?obj) rnd = Inr (tmp, t2)" and
    rn: "Rename (AList.update tmp (File (delivered data)) t2) tmp ?obj = Inr t4" and
    js: "marshal_object L m = Some js" and
    wr: "WriteFile (ignoring_error t4 (MkdirAll t4 (Dir_of ?meta))) ?meta js = Inr t'"
    by blast
  note c = CreateTemp_Inr[OF ct]
  have tmp: "tmp \<noteq> []" using c(1) by simp
  let ?t3 = "AList.update tmp (File (delivered data)) t2"
  have l3: "look ?t3 q = (if q = tmp then Some (File (delivered data)) else look t1 q)" for q
    using tmp by (simp add: c(4) look_update)
  from Rename_look[OF rn]
  have l4: "look t4 q = (if q = ?obj then Some (File (delivered data)) else look t1 q)" for q
    using c(3) by (auto simp: l3)
  obtain t5 where m5: "MkdirAll t4 (Dir_of ?meta) = Inr t5"
  proof (cases "MkdirAll t4 (Dir_of ?meta)")
    case (Inl e)
    then have "resolve_from t4 [] (Dir_of ?meta) \<noteq> Inr Dir" by (rule MkdirAll_fails)
    moreover from wr Inl have "resolve_from t4 [] (butlast ?meta) = Inr Dir"
      by (auto simp: ignoring_error_def dest: WriteFile_Inr(2))
    ultimately show ?thesis by (simp add: Dir_of_def)
  next
    case (Inr t5)
    then show ?thesis using that by blast
  qed
  have l5: "look t5 q =
      (if look t4 q = None \<and> prefix q (Dir_of ?meta) then Some Dir else look t4 q)" for q
    by (rule MkdirAll_look[OF m5])
  have l1: "look t1 q =
      (if look t q = None \<and> prefix q (Dir_of ?obj) then Some Dir else look t q)" for q
    by (rule MkdirAll_look[OF mk])
  have w5: "WriteFile t5 ?meta js = Inr t'"
    using wr by (simp add: m5 ignoring_error_def)
  show ?thesis
    by (rule exI[of _ js], rule exI[of _ t5]) (auto simp: js w5 l5 l4 l1)
qed


lemma PutObject_dirs:
  assumes "PutObject L now rnd st t b k data ct = (Inr m, t')"
    and "prefix q (Dir_of (Join [dataDir st, b, k]))"
  shows "look t q = None \<or> look t q = Some Dir"
proof -
  from PutObject_Inr[OF assms(1)] obtain t1 where
    mk: "MkdirAll t (Dir_of (Join [dataDir st, b, k])) = Inr t1" by blast
  have "look t1 q = Some Dir"
    using MkdirAll_resolve[OF mk] assms(2)
    by (auto simp: resolve_Inr_iff strict_prefix_def)
  then show ?thesis
    by (simp add: MkdirAll_look[OF mk] split: if_splits)
qed

lemma main_storage_eq:
  "main_storage = \<lparr>dataDir = ''storage/data'', metadataDir = ''storage/metadata''\<rparr>"
  by code_simp


lemma main_dirs:
  "dataDir main_storage = ''storage/data''" "metadataDir main_storage = ''storage/metadata''"
  by (simp_all add: main_storage_eq)

lemma Join_main_base:
  "Join [''storage/data''] = [''storage'', ''data'']"
  "Join [''storage/metadata''] = [''storage'', ''metadata'']"
  by (simp_all add: Join_def)

lemma main_same_shape: "same_shape (Join [''storage/data'']) (Join [''storage/metadata''])"
  by (simp add: Join_main_base same_shape_def)

lemma main_object_neq_metadata:
  "Join [dataDir main_storage, b, k] \<noteq> Join [metadataDir main_storage, b, k @ ''.json'']"
  using Join_object_neq_metadata_gen[OF main_same_shape] by (simp add: main_dirs)

lemma PutObject_resolve:
  assumes "PutObject L now rnd st t b k data ct = (Inr m, t')"
    and neq: "Join [dataDir st, b, k] \<noteq> Join [metadataDir st, b, k @ ''.json'']"
  shows "resolve_from t' [] (Join [dataDir st, b, k]) = Inr (File (delivered data))"
    and "\<exists>js. marshal_object L m = Some js \<and>
           resolve_from t' [] (Join [metadataDir st, b, k @ ''.json'']) = Inr (File js)"
proof -
  let ?obj = "Join [dataDir st, b, k]"
  let ?meta = "Join [metadataDir st, b, k @ ''.json'']"
  from PutObject_steps[OF assms(1)] obtain js t5 where
    js: "marshal_object L m = Some js" and
    wr: "WriteFile t5 ?meta js = Inr t'" and
    l5: "\<And>q. look t5 q =
       (if q = ?obj then Some (File (delivered data))
        else if look t q = None \<and> (prefix q (Dir_of ?obj) \<or> prefix q (Dir_of ?meta))
        then Some Dir
        else look t q)"
    by blast
  show "\<exists>js. marshal_object L m = Some js \<and> resolve_from t' [] ?meta = Inr (File js)"
    using js WriteFile_resolve[OF wr] by blast
  have "look t' q = Some Dir" if sp: "strict_prefix q ?obj" for q
  proof -
    from sp have qo: "q \<noteq> ?obj" by (simp add: strict_prefix_def)
    from sp have p: "prefix q (Dir_of ?obj)" by (simp add: strict_prefix_butlast Dir_of_def)
    from PutObject_dirs[OF assms(1) p] qo p have d5: "look t5 q = Some Dir"
      by (auto simp: l5)
    with WriteFile_Inr(3)[OF wr] have "q \<noteq> ?meta" by auto
    with d5 show ?thesis by (simp add: WriteFile_look[OF wr])
  qed
  then show "resolve_from t' [] ?obj = Inr (File (delivered data))"
    using neq by (simp add: resolve_Inr_iff WriteFile_look[OF wr] l5)
qed

lemma hextable_nth: "i < 16 \<Longrightarrow> hextable ! i \<in> set ''0123456789abcdef''"
proof -
  assume "i < 16"
  then have "i < length hextable" by (simp add: hextable_def)
  then have "hextable ! i \<in> set hextable" by (rule nth_mem)
  then show ?thesis by (simp only: hextable_def)
qed

lemma of_char_less_256: "(of_char c :: nat) < 256"
  by (cases c) (simp add: of_char_def)

lemma EncodeToString_hex: "set (EncodeToString bs) \<subseteq> set ''0123456789abcdef''"
proof -
  have a: "(of_char v :: nat) div 16 < 16" for v
    using of_char_less_256[of v] by arith
  have b: "(of_char v :: nat) mod 16 < 16" for v
    by simp
  show ?thesis
    unfolding EncodeToString_def using hextable_nth[OF a] hextable_nth[OF b] by auto
qed

lemma length_EncodeToString: "length (EncodeToString bs) = 2 * length bs"
  by (induction bs) (simp_all add: EncodeToString_def)



section \<open>Paths of valid names in the server's store\<close>








section \<open>When PutObject succeeds\<close>






section \<open>Facts about the concrete stores and codec\<close>

lemma put_hello:
  "PutObject demo_libs 7 ''1'' main_storage empty_store ''photos'' ''a.txt'' hello ''text/plain'' =
     (Inr hello_metadata, store_with_object)"
  by code_simp

lemma dec_enc_str: "dec_str (enc_str s @ r) = Some (s, r)"
  by (induction s) simp_all

lemma dec_enc_int: "dec_int (enc_int i @ r) = Some (i, r)"
  unfolding dec_int_def enc_int_def by (auto simp: dec_enc_str)


lemma demo_bucket_roundtrip:
  "marshal_bucket demo_libs x = Some js \<Longrightarrow> unmarshal_bucket demo_libs js = Some x"
  by (auto simp: demo_libs_def demo_marshal_bucket_def demo_unmarshal_bucket_def
      dec_enc_str dec_enc_int dec_enc_int[of _ "[]", simplified])

lemma put_nested:
  "PutObject demo_libs 7 ''1'' main_storage empty_store ''photos'' ''a.json/c''
     \<lparr>delivered = ''x'', broken = False\<rparr> ''text/plain'' =
   (Inr \<lparr>Key = ''a.json/c'', Size = 1, ContentType = ''text/plain'', ETag = ''78'',
         LastModified = 7\<rparr>, store_with_nested)"
  by code_simp


section \<open>Facts about directory listings\<close>

lemma set_buckets_of_entries:
  "set (buckets_of_entries L now st t es) =
     (\<Union>(name, isDir) \<in> set es.
        if isDir then (case loadBucketMetadata L now st t name of Inl e \<Rightarrow> {} | Inr B \<Rightarrow> {B})
        else {})"
proof (induction es)
  case Nil
  show ?case by simp
next
  case (Cons e es)
  obtain name isDir where e: "e = (name, isDir)" by (cases e)
  show ?case
    unfolding e using Cons.IH
    by (cases isDir; cases "loadBucketMetadata L now st t name") simp_all
qed

lemma ReadDir_names:
  assumes "distinct (map fst t)" and "ReadDir t d = Inr es"
  shows "(name, True) \<in> set es \<longleftrightarrow> look t (d @ [name]) = Some Dir"
proof -
  from assms(2) have es: "es = sort_key fst (map (\<lambda>(q, n). (last q, n = Dir))
                 (filter (\<lambda>(q, n). q \<noteq> [] \<and> butlast q = d) t))"
    by (auto simp: ReadDir_def split: sum.splits node.splits)
  have "(name, True) \<in> set es \<longleftrightarrow> (\<exists>q. (q, Dir) \<in> set t \<and> q \<noteq> [] \<and> butlast q = d \<and> last q = name)"
    unfolding es by (auto simp: image_iff)
  also have "\<dots> \<longleftrightarrow> (d @ [name], Dir) \<in> set t"
    by (metis append_butlast_last_id butlast_snoc last_snoc snoc_eq_iff_butlast)
  also have "\<dots> \<longleftrightarrow> look t (d @ [name]) = Some Dir"
    using assms(1) by (simp add: look_def)
  finally show ?thesis .
qed

section \<open>Requests other than PutObject keep the bucket layout\<close>










section \<open>Sequences of puts and the listing of a bucket\<close>























lemma Nil_not_split_path [simp]: "[] \<noteq> split_path s"
  using split_path_not_Nil[of s] by (rule not_sym)





section \<open>C1: DeleteObject\<close>

text \<open>C1. The claim is that a successful \<open>DeleteObject\<close> removes the payload file and the
  metadata record. On the store that holds \<open>photos/a.txt\<close> the call succeeds and removes
  the payload, and the record \<open>metadata/photos/a.txt.json\<close> is still there and still
  readable: the second \<open>Remove\<close> is given a path under \<open>dataDir\<close>.\<close>

theorem DeleteObject_leaves_metadata_record:
  "DeleteObject main_storage store_with_object ''photos'' ''a.txt'' = (None, store_after_delete) \<and>
   Stat store_after_delete (Join [dataDir main_storage, ''photos'', ''a.txt'']) = Inl ENOENT \<and>
   ReadFile store_after_delete (Join [metadataDir main_storage, ''photos'', ''a.txt.json'']) =
     Inr hello_record"
  by code_simp

section \<open>C2: a failing PutObject\<close>




section \<open>C3: ListBuckets\<close>

text \<open>C3, as stated, fails: the bucket \<open>photos\<close> has no metadata record that could be read,
  and \<open>ListBuckets\<close> returns an entry for it, made up from the directory name and the
  current time.\<close>

theorem ListBuckets_counterexample:
  "ReadFile store_with_object (Join [metadataDir main_storage, ''photos'' @ ''.json'']) = Inl ENOENT \<and>
   ListBuckets demo_libs 9 main_storage store_with_object =
     Inr [\<lparr>Name = ''photos'', Created = 9\<rparr>]"
  by code_simp

text \<open>C3, amended. \<open>ListBuckets\<close> returns entries for the directories of the data
  directory, and for each of them: the decoded record when the bucket's metadata record
  can be read and parsed; an entry made up of the directory's name and the current time
  when the record cannot be read; nothing when the record is read and does not parse.\<close>

theorem ListBuckets_entries:
  assumes "distinct (map fst t)" and "ListBuckets L now st t = Inr bs"
  shows "set bs =
     (\<Union>name \<in> {n. look t (Join [dataDir st] @ [n]) = Some Dir}.
        case ReadFile t (Join [metadataDir st, name @ ''.json'']) of
          Inl e \<Rightarrow> {\<lparr>Name = name, Created = now\<rparr>}
        | Inr js \<Rightarrow> (case unmarshal_bucket L js of None \<Rightarrow> {} | Some B \<Rightarrow> {B}))"
proof -
  from assms(2) obtain es where rd: "ReadDir t (Join [dataDir st]) = Inr es"
    and bs: "bs = buckets_of_entries L now st t es"
    by (auto simp: ListBuckets_def split: sum.splits)
  have ld: "(case loadBucketMetadata L now st t name of Inl e \<Rightarrow> {} | Inr B \<Rightarrow> {B}) =
      (case ReadFile t (Join [metadataDir st, name @ ''.json'']) of
          Inl e \<Rightarrow> {\<lparr>Name = name, Created = now\<rparr>}
        | Inr js \<Rightarrow> (case unmarshal_bucket L js of None \<Rightarrow> {} | Some B \<Rightarrow> {B}))" for name
    by (simp add: loadBucketMetadata_def Let_def split: sum.splits option.splits)
  have "set bs = (\<Union>(name, isDir) \<in> set es.
        if isDir then (case loadBucketMetadata L now st t name of Inl e \<Rightarrow> {} | Inr B \<Rightarrow> {B})
        else {})"
    unfolding bs by (rule set_buckets_of_entries)
  also have "\<dots> = (\<Union>name \<in> {n. (n, True) \<in> set es}.
        case loadBucketMetadata L now st t name of Inl e \<Rightarrow> {} | Inr B \<Rightarrow> {B})"
    by (auto split: if_splits)
  also have "{n. (n, True) \<in> set es} = {n. look t (Join [dataDir st] @ [n]) = Some Dir}"
    using ReadDir_names[OF assms(1) rd] by simp
  finally show ?thesis by (simp only: ld)
qed

theorem ListBuckets_entries_witness:
  "distinct (map fst store_with_buckets) \<and>
   ListBuckets demo_libs 9 main_storage store_with_buckets =
     Inr [\<lparr>Name = ''alpha'', Created = 3\<rparr>, \<lparr>Name = ''beta'', Created = 9\<rparr>] \<and>
   ReadFile store_with_buckets (Join [metadataDir main_storage, ''alpha'' @ ''.json'']) =
     Inr '':a:l:p:h:a.:+:+:+.'' \<and>
   unmarshal_bucket demo_libs '':a:l:p:h:a.:+:+:+.'' = Some \<lparr>Name = ''alpha'', Created = 3\<rparr> \<and>
   ReadFile store_with_buckets (Join [metadataDir main_storage, ''beta'' @ ''.json'']) = Inl ENOENT \<and>
   ReadFile store_with_buckets (Join [metadataDir main_storage, ''gamma'' @ ''.json'']) =
     Inr ''garbage'' \<and>
   unmarshal_bucket demo_libs ''garbage'' = None \<and>
   set [\<lparr>Name = ''alpha'', Created = 3\<rparr>, \<lparr>Name = ''beta'', Created = 9\<rparr>] =
     (\<Union>name \<in> {n. look store_with_buckets (Join [dataDir main_storage] @ [n]) = Some Dir}.
        case ReadFile store_with_buckets (Join [metadataDir main_storage, name @ ''.json'']) of
          Inl e \<Rightarrow> {\<lparr>Name = name, Created = 9\<rparr>}
        | Inr js \<Rightarrow> (case unmarshal_bucket demo_libs js of None \<Rightarrow> {} | Some B \<Rightarrow> {B}))"
proof -
  have d: "distinct (map fst store_with_buckets)" by code_simp
  have h: "ListBuckets demo_libs 9 main_storage store_with_buckets =
     Inr [\<lparr>Name = ''alpha'', Created = 3\<rparr>, \<lparr>Name = ''beta'', Created = 9\<rparr>]"
    by code_simp
  have r: "ReadFile store_with_buckets (Join [metadataDir main_storage, ''alpha'' @ ''.json'']) =
     Inr '':a:l:p:h:a.:+:+:+.''"
    "unmarshal_bucket demo_libs '':a:l:p:h:a.:+:+:+.'' = Some \<lparr>Name = ''alpha'', Created = 3\<rparr>"
    "ReadFile store_with_buckets (Join [metadataDir main_storage, ''beta'' @ ''.json'']) = Inl ENOENT"
    "ReadFile store_with_buckets (Join [metadataDir main_storage, ''gamma'' @ ''.json'']) =
     Inr ''garbage''"
    "unmarshal_bucket demo_libs ''garbage'' = None"
    by code_simp+
  from ListBuckets_entries[OF d h] d h r show ?thesis by blast
qed

section \<open>C4: payload directory and metadata record of a bucket\<close>




section \<open>C5: round trip\<close>



section \<open>C6: GetObject and missing objects\<close>




section \<open>C7: listing tolerates a corrupt record\<close>



section \<open>C8: size and checksum of a put\<close>

text \<open>C8. The metadata that a successful \<open>PutObject\<close> returns has \<open>Size\<close> equal to the
  number of bytes the stream delivered (the call has no size argument) and \<open>ETag\<close> equal
  to the hexadecimal encoding of the MD5 digest of exactly those bytes: two digits from
  \<open>0123456789abcdef\<close> for each byte of the digest. The same bytes are the payload file.\<close>

theorem PutObject_size_and_etag:
  assumes "PutObject L now rnd main_storage t bucketName objectKey data contentType = (Inr m, t')"
  shows "Size m = int (length (delivered data)) \<and>
         ETag m = EncodeToString (md5_sum L (delivered data)) \<and>
         set (ETag m) \<subseteq> set ''0123456789abcdef'' \<and>
         length (ETag m) = 2 * length (md5_sum L (delivered data)) \<and>
         look t' (Join [dataDir main_storage, bucketName, objectKey]) =
           Some (File (delivered data))"
proof -
  from PutObject_Inr[OF assms] have
    m: "m = \<lparr>Key = objectKey, Size = int (length (delivered data)), ContentType = contentType,
          ETag = EncodeToString (md5_sum L (delivered data)), LastModified = now\<rparr>"
    by blast
  have "resolve_from t' [] (Join [dataDir main_storage, bucketName, objectKey]) =
          Inr (File (delivered data))"
    using PutObject_resolve(1)[OF assms main_object_neq_metadata] .
  then have lk: "look t' (Join [dataDir main_storage, bucketName, objectKey]) =
          Some (File (delivered data))"
    by (simp add: resolve_Inr_iff)
  have e: "ETag m = EncodeToString (md5_sum L (delivered data))" by (simp add: m)
  have s: "Size m = int (length (delivered data))" by (simp add: m)
  show ?thesis
    unfolding e
    by (intro conjI s refl EncodeToString_hex length_EncodeToString lk)
qed

theorem PutObject_size_and_etag_witness:
  "PutObject demo_libs 7 ''1'' main_storage empty_store ''photos'' ''a.txt'' hello ''text/plain'' =
     (Inr hello_metadata, store_with_object) \<and>
   Size hello_metadata = int (length (delivered hello)) \<and>
   ETag hello_metadata = EncodeToString (md5_sum demo_libs (delivered hello)) \<and>
   Size hello_metadata = 5 \<and> ETag hello_metadata = ''6f6c6c6568''"
  using PutObject_size_and_etag[OF put_hello] put_hello
  by (simp add: hello_metadata_def)

section \<open>C9: PutObject into a bucket that was never created\<close>



section \<open>C10: ListObjects on a bucket without payload directory\<close>



end
